theory Spec2Isabelle
  imports Complex_Main "HOL-Library.Word" "HOL-Library.Sublist"
begin

section \<open>Python values\<close>

text \<open>
  The solver handles values decoded from JSON (\<open>json.loads\<close>, \<open>response.json()\<close>) and
  passes them on untyped. They are modelled by one datatype. A dict is an association
  list with distinct keys, read with \<open>map_of\<close>. A finite float is carried as the real number it denotes.
  Text is a \<open>string\<close>: a sequence of code points below 256.
\<close>

datatype json =
    JNull
  | JBool bool
  | JInt int
  | JFloat real
  | JStr string
  | JList "json list"
  | JObj "(string \<times> json) list"

datatype error =
    AttributeError
  | KeyError string
  | TypeError
  | JSONDecodeError
  | UnicodeDecodeError
  | DownloadFailed int
  | ServiceError string

type_synonym bytes = "8 word list"

text \<open>Python truth value testing, as used by \<open>if x\<close>, \<open>not x\<close> and \<open>x and y\<close>.\<close>

fun truthy :: "json \<Rightarrow> bool" where
  "truthy JNull = False"
| "truthy (JBool b) = b"
| "truthy (JInt i) = (i \<noteq> 0)"
| "truthy (JFloat r) = (r \<noteq> 0)"
| "truthy (JStr s) = (s \<noteq> [])"
| "truthy (JList xs) = (xs \<noteq> [])"
| "truthy (JObj kvs) = (kvs \<noteq> [])"

text \<open>\<open>d.get(k)\<close>: only a dict has the method; a missing key gives \<open>None\<close>.\<close>

fun py_get :: "json \<Rightarrow> string \<Rightarrow> error + json" where
  "py_get (JObj kvs) k = Inr (case map_of kvs k of None \<Rightarrow> JNull | Some v \<Rightarrow> v)"
| "py_get _ k = Inl AttributeError"

text \<open>\<open>d.get(k, default)\<close>.\<close>

fun py_get_default :: "json \<Rightarrow> string \<Rightarrow> json \<Rightarrow> error + json" where
  "py_get_default (JObj kvs) k d = Inr (case map_of kvs k of None \<Rightarrow> d | Some v \<Rightarrow> v)"
| "py_get_default _ k d = Inl AttributeError"

text \<open>\<open>d[k]\<close> on a dict raises \<open>KeyError\<close> for a missing key.\<close>

fun py_item :: "json \<Rightarrow> string \<Rightarrow> error + json" where
  "py_item (JObj kvs) k = (case map_of kvs k of None \<Rightarrow> Inl (KeyError k) | Some v \<Rightarrow> Inr v)"
| "py_item _ k = Inl TypeError"

text \<open>
  \<open>for x in v\<close>: a list yields its elements, a string its characters, a dict its keys;
  nothing else decoded from JSON is iterable.
\<close>

fun py_iter :: "json \<Rightarrow> error + json list" where
  "py_iter (JList xs) = Inr xs"
| "py_iter (JStr s) = Inr (map (\<lambda>c. JStr [c]) s)"
| "py_iter (JObj kvs) = Inr (map (\<lambda>kv. JStr (fst kv)) kvs)"
| "py_iter _ = Inl TypeError"

section \<open>String operations\<close>

definition code :: "char \<Rightarrow> nat" where
  "code c = of_char c"

text \<open>\<open>str.lower()\<close> on code points below 256.\<close>

definition lower_char :: "char \<Rightarrow> char" where
  "lower_char c =
     (if (65 \<le> code c \<and> code c \<le> 90) \<or> (192 \<le> code c \<and> code c \<le> 222 \<and> code c \<noteq> 215)
      then char_of (code c + 32) else c)"

definition lower :: "string \<Rightarrow> string" where
  "lower s = map lower_char s"

text \<open>\<open>sub in s\<close> for strings.\<close>

fun contains :: "string \<Rightarrow> string \<Rightarrow> bool" where
  "contains sub [] = (sub = [])"
| "contains sub (c # cs) = (prefix sub (c # cs) \<or> contains sub cs)"

text \<open>\<open>str.strip()\<close>: the characters below 256 for which \<open>isspace()\<close> holds.\<close>

definition is_space :: "char \<Rightarrow> bool" where
  "is_space c =
     ((9 \<le> code c \<and> code c \<le> 13) \<or> (28 \<le> code c \<and> code c \<le> 32)
      \<or> code c = 133 \<or> code c = 160)"

definition strip :: "string \<Rightarrow> string" where
  "strip s = rev (dropWhile is_space (rev (dropWhile is_space s)))"

definition is_digit :: "char \<Rightarrow> bool" where
  "is_digit c = (48 \<le> code c \<and> code c \<le> 57)"

section \<open>format\_answer\<close>

text \<open>
  \<open>re.findall(r'-?\d+\.?\d*', answer_text)\<close>: only the first match and whether there is
  one are used. \<open>match_number\<close> is the match from a position that holds a digit.
\<close>

definition match_number :: "string \<Rightarrow> string" where
  "match_number s =
     (let ds = takeWhile is_digit s; rest = dropWhile is_digit s
      in case rest of
           c # r2 \<Rightarrow> if c = CHR ''.'' then ds @ [c] @ takeWhile is_digit r2 else ds
         | [] \<Rightarrow> ds)"

fun first_number :: "string \<Rightarrow> string option" where
  "first_number [] = None"
| "first_number (c # cs) =
     (if is_digit c then Some (match_number (c # cs))
      else if c = CHR ''-'' \<and> cs \<noteq> [] \<and> is_digit (hd cs) then Some (c # match_number cs)
      else first_number cs)"

text \<open>
  \<open>int(float(tok))\<close> for a token \<open>-?\d+\.?\d*\<close>. The token denotes the rational
  \<open>n / 10 ^ k\<close>, \<open>n\<close> the number its digits spell and \<open>k\<close> the count of digits after the
  point. \<open>float\<close> rounds it to the nearest binary64 value, ties to the even significand;
  a value that rounds to \<open>2 ^ 1024\<close> or more becomes infinity, on which \<open>int\<close> raises
  \<open>OverflowError\<close> (the result \<open>None\<close>). \<open>int\<close> drops the fraction.
\<close>

definition digit_val :: "char \<Rightarrow> int" where
  "digit_val c = int (code c) - 48"

definition int_of_digits :: "string \<Rightarrow> int" where
  "int_of_digits ds = foldl (\<lambda>a c. 10 * a + digit_val c) 0 ds"

definition round_half_even :: "int \<Rightarrow> int \<Rightarrow> int" where
  "round_half_even a b =
     (let q = a div b; r = a mod b
      in if 2 * r < b then q
         else if b < 2 * r then q + 1
         else if even q then q else q + 1)"

function ilog2 :: "int \<Rightarrow> nat" where
  "ilog2 n = (if n < 2 then 0 else Suc (ilog2 (n div 2)))"
  by pat_completeness auto
termination
  by (relation "measure nat") auto

declare ilog2.simps [simp del]

definition float_trunc :: "int \<Rightarrow> nat \<Rightarrow> int option" where
  "float_trunc n k =
     (let d = 10 ^ k in
      if 2 * n < d then Some 0
      else if n < d then Some (round_half_even (n * 2 ^ 53) d div 2 ^ 53)
      else let e = ilog2 (n div d) in
        if e \<le> 52 then Some (round_half_even (n * 2 ^ (52 - e)) d div 2 ^ (52 - e))
        else let v = round_half_even n (d * 2 ^ (e - 52)) * 2 ^ (e - 52)
             in if v < 2 ^ 1024 then Some v else None)"

definition int_float :: "string \<Rightarrow> int option" where
  "int_float tok =
     (let neg = (tok \<noteq> [] \<and> hd tok = CHR ''-'');
          body = (if neg then tl tok else tok);
          ip = takeWhile is_digit body;
          fp = drop 1 (dropWhile is_digit body)
      in case float_trunc (int_of_digits (ip @ fp)) (length fp) of
           None \<Rightarrow> None
         | Some m \<Rightarrow> Some (if neg then - m else m))"

text \<open>
  \<open>format_answer(answer_text, answer_format)\<close>. \<open>loads\<close> is \<open>json.loads\<close>, \<open>None\<close> when it
  raises. The test \<open>not answer_format\<close> and the call \<open>answer_format.lower()\<close> are outside
  the \<open>try\<close>; the bare \<open>except\<close> turns every failure inside into the default return.
\<close>

definition format_answer :: "(string \<Rightarrow> json option) \<Rightarrow> string \<Rightarrow> json \<Rightarrow> error + json" where
  "format_answer loads answer_text answer_format =
     (if \<not> truthy answer_format then Inr (JStr answer_text)
      else case answer_format of
        JStr f \<Rightarrow>
          (let fmt = lower f in
           if contains ''number'' fmt \<or> contains ''int'' fmt then
             (case first_number answer_text of
                None \<Rightarrow> Inr (JStr answer_text)
              | Some tok \<Rightarrow>
                  (case int_float tok of
                     None \<Rightarrow> Inr (JStr answer_text)
                   | Some i \<Rightarrow> Inr (JInt i)))
           else if contains ''boolean'' fmt \<or> contains ''bool'' fmt then
             (let answer_lower = lower answer_text in
              if contains ''true'' answer_lower \<or> contains ''yes'' answer_lower
              then Inr (JBool True)
              else if contains ''false'' answer_lower \<or> contains ''no'' answer_lower
              then Inr (JBool False)
              else Inr (JStr answer_text))
           else if contains ''json'' fmt \<or> contains ''object'' fmt then
             (case loads answer_text of
                Some v \<Rightarrow> Inr v
              | None \<Rightarrow> Inr (JStr answer_text))
           else Inr (JStr answer_text))
      | _ \<Rightarrow> Inl AttributeError)"

section \<open>External services\<close>

text \<open>
  The browser, the language-model service, the HTTP client and the clock are outside the
  program. Each is a function of a world state \<open>'w\<close> that returns its answer and the next
  world, so a service may answer the same request differently over time. A failing call
  returns \<open>Inl\<close>. The chat service returns \<open>response.choices[0].message.content\<close>; the
  HTTP GET returns the status, the body that \<open>response.read()\<close> would give and the
  \<open>Content-Type\<close> header; the HTTP POST returns \<open>response.json()\<close>. Clock readings are
  the reals that the floats of \<open>time.time()\<close> denote.
\<close>

record page =
  html :: string
  inner_text :: string

datatype part = TextPart string | ImageUrlPart string

datatype message_content = Plain string | Parts "part list"

record message =
  role :: string
  content :: message_content

record request =
  model :: string
  messages :: "message list"
  max_tokens :: "nat option"
  json_object :: bool

record response =
  status :: int
  body :: "error + bytes"
  content_type_header :: "string option"

record file_info =
  file_content :: bytes
  file_content_type :: string

record 'w services =
  clock :: "'w \<Rightarrow> real \<times> 'w"
  browser :: "json \<Rightarrow> 'w \<Rightarrow> (error + page) \<times> 'w"
  chat :: "request \<Rightarrow> 'w \<Rightarrow> (error + string) \<times> 'w"
  http_get :: "json \<Rightarrow> 'w \<Rightarrow> (error + response) \<times> 'w"
  http_post :: "json \<Rightarrow> json \<Rightarrow> 'w \<Rightarrow> (error + json) \<times> 'w"

text \<open>
  Library functions the solver calls: \<open>json.loads\<close> (\<open>None\<close> when it raises),
  \<open>base64.b64encode(b).decode('utf-8')\<close>, \<open>bytes.decode('utf-8')\<close> (\<open>None\<close> when it raises)
  and the text an f-string gives for a value that is not a string.
\<close>

record lib =
  json_loads :: "string \<Rightarrow> json option"
  b64encode :: "bytes \<Rightarrow> string"
  utf8_decode :: "bytes \<Rightarrow> string option"
  repr :: "json \<Rightarrow> string"

text \<open>
  Every call of a service is recorded: the run state is the world and the calls made so
  far, oldest first.
\<close>

datatype event = Render json | Chat request | Get json | Post json json

type_synonym 'w st = "'w \<times> event list"

definition bind ::
  "('s \<Rightarrow> (error + 'a) \<times> 's) \<Rightarrow> ('a \<Rightarrow> 's \<Rightarrow> (error + 'b) \<times> 's) \<Rightarrow> 's \<Rightarrow> (error + 'b) \<times> 's" where
  "bind m f s = (case m s of (Inl e, s') \<Rightarrow> (Inl e, s') | (Inr a, s') \<Rightarrow> f a s')"

definition lift :: "error + 'a \<Rightarrow> 's \<Rightarrow> (error + 'a) \<times> 's" where
  "lift r s = (r, s)"

definition read_clock :: "'w services \<Rightarrow> 'w st \<Rightarrow> real \<times> 'w st" where
  "read_clock sv st = (case clock sv (fst st) of (t, w') \<Rightarrow> (t, (w', snd st)))"

definition call_browser :: "'w services \<Rightarrow> json \<Rightarrow> 'w st \<Rightarrow> (error + page) \<times> 'w st" where
  "call_browser sv url st =
     (case browser sv url (fst st) of (r, w') \<Rightarrow> (r, (w', snd st @ [Render url])))"

definition call_chat :: "'w services \<Rightarrow> request \<Rightarrow> 'w st \<Rightarrow> (error + string) \<times> 'w st" where
  "call_chat sv req st =
     (case chat sv req (fst st) of (r, w') \<Rightarrow> (r, (w', snd st @ [Chat req])))"

definition call_get :: "'w services \<Rightarrow> json \<Rightarrow> 'w st \<Rightarrow> (error + response) \<times> 'w st" where
  "call_get sv url st =
     (case http_get sv url (fst st) of (r, w') \<Rightarrow> (r, (w', snd st @ [Get url])))"

definition call_post :: "'w services \<Rightarrow> json \<Rightarrow> json \<Rightarrow> 'w st \<Rightarrow> (error + json) \<times> 'w st" where
  "call_post sv url payload st =
     (case http_post sv url payload (fst st) of (r, w') \<Rightarrow> (r, (w', snd st @ [Post url payload])))"

section \<open>The steps of one quiz\<close>

definition nl :: string where
  "nl = [CHR 0x0A]"

definition py_str :: "lib \<Rightarrow> json \<Rightarrow> string" where
  "py_str lb v = (case v of JStr s \<Rightarrow> s | _ \<Rightarrow> repr lb v)"

text \<open>\<open>render_page\<close>: the handler logs and raises again, so the error passes through.\<close>

definition render_page :: "'w services \<Rightarrow> json \<Rightarrow> 'w st \<Rightarrow> (error + page) \<times> 'w st" where
  "render_page sv url = call_browser sv url"

definition parse_prompt :: "page \<Rightarrow> string" where
  "parse_prompt page_content =
     nl @ ''You are a quiz parser. Extract the following information from this quiz page:'' @ nl
     @ nl
     @ ''1. The question being asked'' @ nl
     @ ''2. Any URLs to download files (PDFs, CSVs, etc.)'' @ nl
     @ ''3. The submit endpoint URL where answers should be posted'' @ nl
     @ ''4. The expected format of the answer (boolean, number, string, object, base64, etc.)'' @ nl
     @ nl
     @ ''Quiz page content:'' @ nl
     @ inner_text page_content @ nl
     @ nl
     @ ''Return your response as a JSON object with keys: question, file_urls, submit_url, answer_format''
     @ nl"

definition parse_request :: "page \<Rightarrow> request" where
  "parse_request page_content =
     \<lparr>model = ''gpt-4o-mini'',
      messages =
        [\<lparr>role = ''system'',
          content = Plain ''You are a helpful assistant that parses quiz questions and extracts structured information.''\<rparr>,
         \<lparr>role = ''user'', content = Plain (parse_prompt page_content)\<rparr>],
      max_tokens = None,
      json_object = True\<rparr>"

text \<open>\<open>parse_quiz_with_llm\<close> returns whatever \<open>json.loads\<close> decodes.\<close>

definition parse_quiz_with_llm ::
  "lib \<Rightarrow> 'w services \<Rightarrow> page \<Rightarrow> 'w st \<Rightarrow> (error + json) \<times> 'w st" where
  "parse_quiz_with_llm lb sv page_content =
     bind (call_chat sv (parse_request page_content))
       (\<lambda>c. lift (case json_loads lb c of None \<Rightarrow> Inl JSONDecodeError | Some result \<Rightarrow> Inr result))"

definition download_file :: "'w services \<Rightarrow> json \<Rightarrow> 'w st \<Rightarrow> (error + file_info) \<times> 'w st" where
  "download_file sv url =
     bind (call_get sv url)
       (\<lambda>resp. lift
          (if status resp = 200 then
             (case body resp of
                Inl e \<Rightarrow> Inl e
              | Inr c \<Rightarrow>
                  Inr \<lparr>file_content = c,
                       file_content_type =
                         (case content_type_header resp of None \<Rightarrow> [] | Some t \<Rightarrow> t)\<rparr>)
           else Inl (DownloadFailed (status resp))))"

text \<open>The loop over \<open>quiz_info['file_urls']\<close> in \<open>solve_single_quiz\<close>.\<close>

fun download_files :: "'w services \<Rightarrow> json list \<Rightarrow> 'w st \<Rightarrow> (error + file_info list) \<times> 'w st" where
  "download_files sv [] = lift (Inr [])"
| "download_files sv (file_url # rest) =
     bind (download_file sv file_url)
       (\<lambda>file_content. bind (download_files sv rest)
          (\<lambda>others. lift (Inr (file_content # others))))"

text \<open>The part that the loop over \<open>file_data\<close> appends to \<open>user_content\<close> for one file.\<close>

definition file_part :: "lib \<Rightarrow> file_info \<Rightarrow> error + part list" where
  "file_part lb file_info =
     (let content_type = file_content_type file_info;
          content = file_content file_info
      in if contains ''pdf'' (lower content_type) \<or> contains ''image'' (lower content_type) then
           (let base64_content = b64encode lb content
            in if contains ''pdf'' (lower content_type)
               then Inr [TextPart ''[PDF file content - analyze the data within]'']
               else Inr [ImageUrlPart (''data:'' @ content_type @ '';base64,'' @ base64_content)])
         else if contains ''text'' (lower content_type) \<or> contains ''csv'' (lower content_type) then
           (case utf8_decode lb content of
              None \<Rightarrow> Inl UnicodeDecodeError
            | Some text_content \<Rightarrow> Inr [TextPart (''File content:'' @ nl @ text_content)])
         else Inr [])"

fun file_parts :: "lib \<Rightarrow> file_info list \<Rightarrow> error + part list" where
  "file_parts lb [] = Inr []"
| "file_parts lb (f # fs) =
     (case file_part lb f of
        Inl e \<Rightarrow> Inl e
      | Inr ps \<Rightarrow> (case file_parts lb fs of Inl e \<Rightarrow> Inl e | Inr qs \<Rightarrow> Inr (ps @ qs)))"

text \<open>The \<open>messages\<close> that \<open>solve_with_llm\<close> sends.\<close>

definition build_messages :: "lib \<Rightarrow> json \<Rightarrow> file_info list \<Rightarrow> error + message list" where
  "build_messages lb quiz_info file_data =
     (case py_item quiz_info ''question'' of
        Inl e \<Rightarrow> Inl e
      | Inr question \<Rightarrow>
     (case py_get_default quiz_info ''answer_format'' (JStr ''appropriate format'') of
        Inl e \<Rightarrow> Inl e
      | Inr fmt \<Rightarrow>
     (case file_parts lb file_data of
        Inl e \<Rightarrow> Inl e
      | Inr ps \<Rightarrow>
          Inr [\<lparr>role = ''system'',
                content = Plain ''You are a data analysis expert. Answer questions about data accurately and concisely.''\<rparr>,
               \<lparr>role = ''user'',
                content = Parts
                  (TextPart (''Question: '' @ py_str lb question @ nl @ nl
                     @ ''Provide only the answer in the format: '' @ py_str lb fmt) # ps)\<rparr>])))"

definition solve_with_llm ::
  "lib \<Rightarrow> 'w services \<Rightarrow> json \<Rightarrow> file_info list \<Rightarrow> 'w st \<Rightarrow> (error + json) \<times> 'w st" where
  "solve_with_llm lb sv quiz_info file_data =
     bind (lift (build_messages lb quiz_info file_data))
       (\<lambda>msgs. bind (call_chat sv
            \<lparr>model = ''gpt-4o'', messages = msgs, max_tokens = Some 2000, json_object = False\<rparr>)
       (\<lambda>c. bind (lift (py_get quiz_info ''answer_format''))
       (\<lambda>answer_format. lift (format_answer (json_loads lb) (strip c) answer_format))))"

definition submit_answer ::
  "'w services \<Rightarrow> json \<Rightarrow> json \<Rightarrow> json \<Rightarrow> json \<Rightarrow> json \<Rightarrow> 'w st \<Rightarrow> (error + json) \<times> 'w st" where
  "submit_answer sv submit_url email secret quiz_url answer =
     call_post sv submit_url
       (JObj [(''email'', email), (''secret'', secret), (''url'', quiz_url), (''answer'', answer)])"

text \<open>Step 3 of \<open>solve_single_quiz\<close>: \<open>file_data\<close> from \<open>quiz_info.get('file_urls')\<close>.\<close>

definition download_step ::
  "'w services \<Rightarrow> json \<Rightarrow> 'w st \<Rightarrow> (error + file_info list) \<times> 'w st" where
  "download_step sv quiz_info =
     bind (lift (py_get quiz_info ''file_urls''))
       (\<lambda>file_urls.
          if truthy file_urls
          then bind (lift (py_iter file_urls)) (download_files sv)
          else lift (Inr []))"

definition solve_single_quiz ::
  "lib \<Rightarrow> 'w services \<Rightarrow> json \<Rightarrow> json \<Rightarrow> json \<Rightarrow> 'w st \<Rightarrow> (error + json) \<times> 'w st" where
  "solve_single_quiz lb sv email secret url =
     bind (render_page sv url)
       (\<lambda>page_content. bind (parse_quiz_with_llm lb sv page_content)
       (\<lambda>quiz_info. bind (download_step sv quiz_info)
       (\<lambda>file_data. bind (solve_with_llm lb sv quiz_info file_data)
       (\<lambda>answer. bind (lift (py_get quiz_info ''submit_url''))
       (\<lambda>submit_url. submit_answer sv submit_url email secret url answer)))))"

section \<open>The chain\<close>

definition max_time :: real where
  "max_time = 180"

text \<open>
  The body of the \<open>while\<close> loop of \<open>solve_quiz_chain\<close>, from the \<open>try\<close> to the handler:
  \<open>Break\<close> is a \<open>break\<close> (also the handler's), \<open>Continue\<close> reaches the end of the body with
  the new \<open>current_url\<close>.
\<close>

datatype 'w ctl = Continue json "json list" "'w st" | Break "json list" "'w st"

definition chain_body ::
  "lib \<Rightarrow> 'w services \<Rightarrow> json \<Rightarrow> json \<Rightarrow> json \<Rightarrow> json list \<Rightarrow> 'w st \<Rightarrow> 'w ctl" where
  "chain_body lb sv email secret current_url results st =
     (case solve_single_quiz lb sv email secret current_url st of
        (Inl e, st') \<Rightarrow> Break results st'
      | (Inr result, st') \<Rightarrow>
          (let results' = results @ [result] in
           case py_get result ''correct'' of
             Inl e \<Rightarrow> Break results' st'
           | Inr correct \<Rightarrow>
               if truthy correct then
                 (case py_get result ''url'' of
                    Inl e \<Rightarrow> Break results' st'
                  | Inr next_url \<Rightarrow>
                      if truthy next_url then Continue next_url results' st'
                      else Break results' st')
               else
                 (case py_get result ''url'' of
                    Inl e \<Rightarrow> Break results' st'
                  | Inr next_url \<Rightarrow>
                      if truthy next_url then Continue next_url results' st'
                      else Break results' st')))"

text \<open>
  The \<open>while\<close> loop; \<open>None\<close> is a run that never leaves it. The loop has no error
  result: the handler catches every exception of the body, and the loop test cannot raise.
  \<open>time.time() - start_time\<close> is taken over the reals; the float subtraction is exact
  for two readings within a factor of two of each other.
\<close>

partial_function (option) chain_loop ::
  "lib \<Rightarrow> 'w services \<Rightarrow> json \<Rightarrow> json \<Rightarrow> real \<Rightarrow> json \<Rightarrow> json list \<Rightarrow> 'w st
     \<Rightarrow> (json list \<times> 'w st) option" where
  "chain_loop lb sv email secret start_time current_url results st =
     (if \<not> truthy current_url then Some (results, st)
      else case read_clock sv st of
        (now, st1) \<Rightarrow>
          if now - start_time < max_time then
            (case chain_body lb sv email secret current_url results st1 of
               Continue next_url results' st2 \<Rightarrow>
                 chain_loop lb sv email secret start_time next_url results' st2
             | Break results' st2 \<Rightarrow> Some (results', st2))
          else Some (results, st1))"

declare chain_loop.simps [code]

definition solve_quiz_chain ::
  "lib \<Rightarrow> 'w services \<Rightarrow> json \<Rightarrow> json \<Rightarrow> json \<Rightarrow> 'w st \<Rightarrow> (json list \<times> 'w st) option" where
  "solve_quiz_chain lb sv email secret initial_url st =
     (case read_clock sv st of
        (start_time, st1) \<Rightarrow> chain_loop lb sv email secret start_time initial_url [] st1)"

section \<open>What the specification says of number tokens\<close>

text \<open>
  The specification's reading of a numeric token \<open>-?\d+\.?\d*\<close>: the integer left when
  the fractional part is dropped, that is the digits before the point with the sign.
  \<open>token_digits\<close> is the number that all digits of the token spell, the point left out.
\<close>

definition truncated_value :: "string \<Rightarrow> int" where
  "truncated_value tok =
     (if tok \<noteq> [] \<and> hd tok = CHR ''-''
      then - int_of_digits (takeWhile is_digit (tl tok))
      else int_of_digits (takeWhile is_digit tok))"

definition token_digits :: "string \<Rightarrow> int" where
  "token_digits tok = int_of_digits (filter is_digit tok)"

section \<open>A scripted environment\<close>

text \<open>
  A small world to run the solver in. The world state is the clock in seconds; every
  reading of the clock moves it on by ten and every call of the language model by
  \<open>think\<close>. Every page renders except \<open>bad_url\<close>; the language model answers every parse
  request with \<open>parse_reply\<close> and every question with \<open>42\<close>; the grader sends \<open>u1\<close> on to
  \<open>u2\<close> (correct), \<open>u2\<close> on to \<open>u3\<close> (incorrect), ends the chain at \<open>u3\<close> (correct) and
  answers any other quiz as incorrect with an empty \<open>url\<close>; a post to anything but a string
  fails; a download of \<open>f204\<close> is answered with status 204. \<open>demo_loads\<close> is \<open>json.loads\<close> on
  the three texts it lists.
\<close>

definition demo_loads :: "string \<Rightarrow> json option" where
  \<open>demo_loads s =
     (if s = ''{"question": "q", "submit_url": "s"}''
        then Some (JObj [(''question'', JStr ''q''), (''submit_url'', JStr ''s'')])
      else if s = ''{"question": "q"}'' then Some (JObj [(''question'', JStr ''q'')])
      else if s = ''{"count": 3}'' then Some (JObj [(''count'', JInt 3)])
      else None)\<close>

definition demo_lib :: lib where
  "demo_lib =
     \<lparr>json_loads = demo_loads, b64encode = (\<lambda>b. []), utf8_decode = (\<lambda>b. Some []),
      repr = (\<lambda>v. ''None'')\<rparr>"

definition demo_grade :: "json \<Rightarrow> json" where
  "demo_grade payload =
     (case py_get payload ''url'' of
        Inr (JStr u) \<Rightarrow>
          if u = ''u1'' then JObj [(''correct'', JBool True), (''url'', JStr ''u2'')]
          else if u = ''u2'' then
            JObj [(''correct'', JBool False), (''url'', JStr ''u3''), (''reason'', JStr ''wrong'')]
          else if u = ''u3'' then JObj [(''correct'', JBool True)]
          else JObj [(''correct'', JBool False), (''url'', JStr [])]
      | _ \<Rightarrow> JNull)"

definition demo_services :: "string \<Rightarrow> json \<Rightarrow> nat \<Rightarrow> nat services" where
  "demo_services parse_reply bad_url think =
     \<lparr>clock = (\<lambda>w. (real w, w + 10)),
      browser = (\<lambda>url w.
        if url = bad_url then (Inl (ServiceError ''timeout''), w)
        else (Inr \<lparr>html = [], inner_text = ''quiz''\<rparr>, w)),
      chat = (\<lambda>req w.
        if json_object req then (Inr parse_reply, w + think) else (Inr '' 42 '', w + think)),
      http_get = (\<lambda>url w.
        (Inr \<lparr>status = (if url = JStr ''f204'' then 204 else 200), body = Inr [],
              content_type_header = Some ''text/csv''\<rparr>, w)),
      http_post = (\<lambda>url payload w.
        case url of
          JStr s \<Rightarrow> (Inr (demo_grade payload), w)
        | _ \<Rightarrow> (Inl (ServiceError ''invalid url''), w))\<rparr>"

definition quiz_reply :: string where
  \<open>quiz_reply = ''{"question": "q", "submit_url": "s"}''\<close>

definition quiz_reply_no_submit :: string where
  \<open>quiz_reply_no_submit = ''{"question": "q"}''\<close>

text \<open>The URLs passed to the browser in a run, in order.\<close>

fun rendered :: "event list \<Rightarrow> json list" where
  "rendered [] = []"
| "rendered (Render url # evs) = url # rendered evs"
| "rendered (ev # evs) = rendered evs"

text \<open>The submissions made in a run, in order: the URL posted to and the payload.\<close>

fun posted :: "event list \<Rightarrow> (json \<times> json) list" where
  "posted [] = []"
| "posted (Post url payload # evs) = (url, payload) # posted evs"
| "posted (ev # evs) = posted evs"

section \<open>Sequencing\<close>

lemma bind_Inl: "m s = (Inl e, s') \<Longrightarrow> bind m f s = (Inl e, s')"
  by (simp add: bind_def)

lemma bind_Inr: "m s = (Inr a, s') \<Longrightarrow> bind m f s = f a s'"
  by (simp add: bind_def)

lemma bind_lift_Inr: "bind (lift (Inr a)) f s = f a s"
  by (simp add: bind_def lift_def)

lemma bind_lift_Inl: "bind (lift (Inl e)) f s = (Inl e, s)"
  by (simp add: bind_def lift_def)

section \<open>Downloads\<close>

text \<open>
  C3 (as the code has it). When the GET is answered, \<open>download_file\<close> returns a payload
  exactly when the status is 200 and the body can be read; the payload holds the body and
  the \<open>Content-Type\<close> header (empty when there is none). Every other status, the success
  statuses 201 to 299 among them, raises.
\<close>

theorem download_file_needs_status_200:
  "call_get sv url st = (Inr resp, st') \<Longrightarrow>
     (\<not> isl (fst (download_file sv url st))) = (status resp = 200 \<and> \<not> isl (body resp))
     \<and> (status resp = 200 \<longrightarrow> body resp = Inr c \<longrightarrow>
          download_file sv url st =
            (Inr \<lparr>file_content = c,
                  file_content_type =
                    (case content_type_header resp of None \<Rightarrow> [] | Some t \<Rightarrow> t)\<rparr>, st'))
     \<and> (status resp \<noteq> 200 \<longrightarrow>
          download_file sv url st = (Inl (DownloadFailed (status resp)), st'))"
  by (cases "body resp") (simp_all add: download_file_def bind_def lift_def)

theorem download_file_needs_status_200_witness:
  "download_file (demo_services [] JNull 0) (JStr ''f'') (0, []) =
     (Inr \<lparr>file_content = [], file_content_type = ''text/csv''\<rparr>, (0, [Get (JStr ''f'')]))
   \<and> download_file (demo_services [] JNull 0) (JStr ''f204'') (0, []) =
     (Inl (DownloadFailed 204), (0, [Get (JStr ''f204'')]))"
proof -
  let ?sv = "demo_services [] JNull 0"
  let ?ok = "\<lparr>status = 200, body = Inr [], content_type_header = Some ''text/csv''\<rparr>"
  let ?no = "\<lparr>status = 204, body = Inr [], content_type_header = Some ''text/csv''\<rparr>"
  have a: "call_get ?sv (JStr ''f'') (0, []) = (Inr ?ok, (0, [Get (JStr ''f'')]))"
    by (simp add: call_get_def demo_services_def)
  have b: "call_get ?sv (JStr ''f204'') (0, []) = (Inr ?no, (0, [Get (JStr ''f204'')]))"
    by (simp add: call_get_def demo_services_def)
  show ?thesis
    using download_file_needs_status_200 [OF a, of "[]"]
      download_file_needs_status_200 [OF b, of "[]"]
    by simp
qed

text \<open>
  C3 as stated fails: a GET answered with the success status 204 makes \<open>download_file\<close>
  raise.
\<close>

theorem download_file_status_204_counterexample:
  "call_get (demo_services [] JNull 0) (JStr ''f204'') (0, []) =
     (Inr \<lparr>status = 204, body = Inr [], content_type_header = Some ''text/csv''\<rparr>,
      (0, [Get (JStr ''f204'')]))
   \<and> download_file (demo_services [] JNull 0) (JStr ''f204'') (0, []) =
     (Inl (DownloadFailed 204), (0, [Get (JStr ''f204'')]))"
  by (simp add: download_file_def call_get_def demo_services_def bind_def lift_def)

section \<open>The request sent to the language model\<close>

lemma file_parts_skip:
  "file_part lb f = Inr [] \<Longrightarrow> file_parts lb (xs @ f # ys) = file_parts lb (xs @ ys)"
  by (induction xs) (simp_all split: sum.splits)

lemma lower_ascii_example: "lower ''application/JSON'' = ''application/json''"
  by (simp add: lower_def lower_char_def code_def char_of_def bit_iff_odd_drop_bit)

text \<open>
  C10. A downloaded file whose content type, lower-cased, contains none of \<open>pdf\<close>,
  \<open>image\<close>, \<open>text\<close>, \<open>csv\<close> contributes no part: the messages built, and so the whole
  answering step, are those built from the file list without it.
\<close>

theorem other_content_type_adds_no_part:
  assumes "\<not> contains ''pdf'' (lower (file_content_type f))"
    and "\<not> contains ''image'' (lower (file_content_type f))"
    and "\<not> contains ''text'' (lower (file_content_type f))"
    and "\<not> contains ''csv'' (lower (file_content_type f))"
  shows "file_part lb f = Inr []
    \<and> build_messages lb quiz_info (xs @ f # ys) = build_messages lb quiz_info (xs @ ys)
    \<and> solve_with_llm lb sv quiz_info (xs @ f # ys) = solve_with_llm lb sv quiz_info (xs @ ys)"
proof -
  have p: "file_part lb f = Inr []"
    using assms by (simp add: file_part_def)
  have m: "build_messages lb quiz_info (xs @ f # ys) = build_messages lb quiz_info (xs @ ys)"
    by (simp only: build_messages_def file_parts_skip [OF p])
  show ?thesis
    using p m by (simp add: solve_with_llm_def)
qed

theorem other_content_type_adds_no_part_witness:
  "build_messages demo_lib (JObj [(''question'', JStr ''q'')])
     [\<lparr>file_content = [1, 2], file_content_type = ''text/csv''\<rparr>,
      \<lparr>file_content = [3], file_content_type = ''application/JSON''\<rparr>]
   = build_messages demo_lib (JObj [(''question'', JStr ''q'')])
     [\<lparr>file_content = [1, 2], file_content_type = ''text/csv''\<rparr>]"
  using other_content_type_adds_no_part
    [of "\<lparr>file_content = [3], file_content_type = ''application/JSON''\<rparr>" demo_lib
        "JObj [(''question'', JStr ''q'')]"
        "[\<lparr>file_content = [1, 2], file_content_type = ''text/csv''\<rparr>]" "[]"
        "demo_services [] JNull 0"]
  by (simp add: lower_ascii_example)

section \<open>Formatting the answer\<close>

lemma contains_sublist: "contains sub s = sublist sub s"
  by (induction s) (simp_all add: sublist_Cons_right)

lemma contains_trans: "contains a b \<Longrightarrow> contains b c \<Longrightarrow> contains a c"
  unfolding contains_sublist by (rule sublist_order.order_trans)

lemma contains_nonempty: "contains sub s \<Longrightarrow> sub \<noteq> [] \<Longrightarrow> s \<noteq> []"
  by (cases s) auto

lemma lower_nonempty: "lower s \<noteq> [] \<Longrightarrow> s \<noteq> []"
  by (simp add: lower_def)

lemmas lower_eval = lower_def lower_char_def code_def char_of_def bit_iff_odd_drop_bit

lemmas number_eval = is_digit_def match_number_def int_float_def float_trunc_def
  int_of_digits_def digit_val_def round_half_even_def ilog2.simps

text \<open>
  C7 (as the code has it). For a format string that, lower-cased, contains \<open>json\<close> or
  \<open>object\<close> and contains none of \<open>number\<close>, \<open>int\<close>, \<open>bool\<close>, \<open>format_answer\<close> does not
  raise: it returns what \<open>json.loads\<close> decodes, and the text unchanged when \<open>json.loads\<close>
  fails.
\<close>

theorem format_answer_json_branch:
  assumes "contains ''json'' (lower f) \<or> contains ''object'' (lower f)"
    and "\<not> contains ''number'' (lower f)"
    and "\<not> contains ''int'' (lower f)"
    and "\<not> contains ''bool'' (lower f)"
  shows "format_answer loads answer_text (JStr f) =
    Inr (case loads answer_text of Some v \<Rightarrow> v | None \<Rightarrow> JStr answer_text)"
proof -
  have "lower f \<noteq> []"
    using assms(1) contains_nonempty by fastforce
  then have ne: "f \<noteq> []"
    by (rule lower_nonempty)
  have nb: "\<not> contains ''boolean'' (lower f)"
  proof
    assume "contains ''boolean'' (lower f)"
    moreover have "contains ''bool'' ''boolean''"
      by simp
    ultimately have "contains ''bool'' (lower f)"
      by (rule contains_trans [rotated])
    with assms(4) show False ..
  qed
  show ?thesis
    using assms ne nb by (simp add: format_answer_def split: option.splits)
qed

theorem format_answer_json_branch_witness:
  \<open>format_answer demo_loads ''not valid json{{'' (JStr ''object'') = Inr (JStr ''not valid json{{'')
   \<and> format_answer demo_loads ''{"count": 3}'' (JStr ''json object'')
       = Inr (JObj [(''count'', JInt 3)])\<close>
  using format_answer_json_branch [of "''object''" demo_loads "''not valid json{{''"]
    format_answer_json_branch [of "''json object''" demo_loads \<open>''{"count": 3}''\<close>]
  by (simp add: lower_eval demo_loads_def)

text \<open>
  C7 as stated fails: the format \<open>json object with integer count\<close> contains \<open>json\<close>, but
  it also contains \<open>int\<close>, and the number branch comes first. The text decodes as JSON, yet
  the answer is the first number in it.
\<close>

theorem format_answer_json_int_counterexample:
  \<open>demo_loads ''{"count": 3}'' = Some (JObj [(''count'', JInt 3)])
   \<and> format_answer demo_loads ''{"count": 3}'' (JStr ''json object with integer count'')
       = Inr (JInt 3)\<close>
  by (simp add: demo_loads_def format_answer_def lower_eval number_eval)

section \<open>Number tokens\<close>

text \<open>
  Rounding to binary64 and then dropping the fraction gives the plain quotient whenever
  the digits of the token spell a number below \<open>2 ^ 53\<close>.
\<close>

lemma div_mod_unique:
  fixes a b q r :: int
  assumes "a = b * q + r" "0 \<le> r" "r < b"
  shows "a div b = q" "a mod b = r"
  using assms by (auto simp: int_div_pos_eq int_mod_pos_eq)

lemma round_half_even_scaled:
  fixes n d :: int
  assumes n: "0 \<le> n" and d: "0 < d" and small: "d < 2 * 2 ^ s"
  shows "round_half_even (n * 2 ^ s) d div 2 ^ s = n div d"
proof -
  define P :: int where "P = 2 ^ s"
  define nq nr where "nq = n div d" and "nr = n mod d"
  define t r where "t = (nr * P) div d" and "r = (nr * P) mod d"
  have P: "0 < P" by (simp add: P_def)
  have n_eq: "n = d * nq + nr" by (simp add: nq_def nr_def)
  have nr: "0 \<le> nr" "nr < d" using d by (simp_all add: nr_def)
  have tr_eq: "nr * P = d * t + r" by (simp add: t_def r_def)
  have r: "0 \<le> r" "r < d" using d by (simp_all add: r_def)
  have t0: "0 \<le> t" using nr P d by (simp add: t_def pos_imp_zdiv_nonneg_iff)
  have "nr * P < d * P" using nr P by simp
  then have "d * t < d * P" using tr_eq r by linarith
  then have tP: "t < P" using d by simp
  have a_eq: "n * P = d * (nq * P + t) + r"
    using n_eq tr_eq by (simp add: algebra_simps)
  have q: "(n * P) div d = nq * P + t" and m: "(n * P) mod d = r"
    using div_mod_unique [OF a_eq r] by simp_all
  have low: "(nq * P + t) div P = nq"
    by (rule div_mod_unique(1) [of _ _ _ t]) (use t0 tP in \<open>simp_all add: algebra_simps\<close>)
  have up: "(nq * P + t + 1) div P = nq" if "d \<le> 2 * r"
  proof -
    have "t + 1 < P"
    proof (rule ccontr)
      assume "\<not> t + 1 < P"
      with tP have t: "t = P - 1" by simp
      have "r = d - (d - nr) * P"
        using tr_eq unfolding t by (simp add: algebra_simps)
      moreover have "P \<le> (d - nr) * P"
        using nr P by (simp add: mult_le_cancel_right1)
      ultimately have "2 * r \<le> 2 * d - 2 * P" by linarith
      with that small show False by (simp add: P_def)
    qed
    then show ?thesis
      by (intro div_mod_unique(1) [of _ _ _ "t + 1"]) (use t0 in \<open>simp_all add: algebra_simps\<close>)
  qed
  have "round_half_even (n * P) d = nq * P + t
      \<or> (round_half_even (n * P) d = nq * P + t + 1 \<and> d \<le> 2 * r)"
    unfolding round_half_even_def Let_def q m by auto
  then have "round_half_even (n * P) d div P = nq"
    using low up by auto
  then show ?thesis
    by (simp add: P_def nq_def)
qed

lemma ilog2_le: "1 \<le> m \<Longrightarrow> 2 ^ ilog2 m \<le> m"
proof (induction m rule: ilog2.induct)
  case (1 n)
  show ?case
  proof (cases "n < 2")
    case True
    with 1 show ?thesis by (simp add: ilog2.simps [of n])
  next
    case False
    then have "1 \<le> n div 2" by simp
    with 1 False have "2 ^ ilog2 (n div 2) \<le> n div 2" by simp
    then show ?thesis using False by (simp add: ilog2.simps [of n])
  qed
qed

lemma float_trunc_exact:
  assumes "0 \<le> n" "n < 2 ^ 53"
  shows "float_trunc n k = Some (n div 10 ^ k)"
proof -
  define d :: int where "d = 10 ^ k"
  have d: "0 < d" by (simp add: d_def)
  consider "2 * n < d" | "\<not> 2 * n < d" "n < d" | "d \<le> n" by linarith
  then show ?thesis
  proof cases
    case 1
    then have "n div d = 0" using assms by simp
    with 1 show ?thesis by (simp add: float_trunc_def d_def)
  next
    case 2
    then have "d < 2 * 2 ^ 53" using assms by linarith
    from round_half_even_scaled [OF assms(1) d this]
    show ?thesis using 2 by (simp add: float_trunc_def d_def [symmetric])
  next
    case 3
    define e where "e = ilog2 (n div d)"
    have "0 < n div d" using 3 d by (simp add: pos_imp_zdiv_pos_iff)
    then have one: "1 \<le> n div d" by simp
    then have pe: "2 ^ e \<le> n div d" unfolding e_def by (rule ilog2_le)
    have "n = d * (n div d) + n mod d" by simp
    moreover have "0 \<le> n mod d" using d by simp
    ultimately have dn: "d * (n div d) \<le> n" by linarith
    have "d * 2 ^ e \<le> d * (n div d)" using pe d by simp
    with dn have le: "d * 2 ^ e \<le> n" by linarith
    have "(2::int) ^ e \<le> d * 2 ^ e" using d by simp
    with le assms have lt: "(2::int) ^ e < 2 ^ 53" by linarith
    have e52: "e \<le> 52"
    proof (rule ccontr)
      assume "\<not> e \<le> 52"
      then have "53 \<le> e" by simp
      then have "(2::int) ^ 53 \<le> 2 ^ e" by (rule power_increasing) simp
      with lt show False by linarith
    qed
    have "e + Suc (52 - e) = 53" using e52 by simp
    then have "(2::int) ^ (e + Suc (52 - e)) = 2 ^ 53" by (simp only:)
    then have split: "(2::int) ^ e * (2 * 2 ^ (52 - e)) = 2 ^ 53"
      by (simp only: power_add power_Suc)
    from le assms have "2 ^ e * d < (2::int) ^ 53" by (simp add: mult.commute)
    then have "2 ^ e * d < (2::int) ^ e * (2 * 2 ^ (52 - e))" by (simp only: split)
    then have "d < 2 * 2 ^ (52 - e)" by simp
    from round_half_even_scaled [OF assms(1) d this]
    show ?thesis using 3 e52 d assms(1)
      by (simp add: float_trunc_def d_def [symmetric] e_def [symmetric])
  qed
qed


lemma foldl_digits:
  "foldl (\<lambda>a c. 10 * a + digit_val c) acc ds =
     acc * 10 ^ length ds + foldl (\<lambda>a c. 10 * a + digit_val c) 0 ds"
proof (induction ds arbitrary: acc)
  case Nil
  show ?case by simp
next
  case (Cons c ds)
  show ?case
    using Cons.IH [of "10 * acc + digit_val c"] Cons.IH [of "digit_val c"]
    by (simp add: algebra_simps)
qed

lemma int_of_digits_append:
  "int_of_digits (a @ b) = int_of_digits a * 10 ^ length b + int_of_digits b"
  unfolding int_of_digits_def foldl_append by (rule foldl_digits)

lemma digit_val_range: "is_digit c \<Longrightarrow> 0 \<le> digit_val c \<and> digit_val c \<le> 9"
  by (auto simp: is_digit_def digit_val_def)

lemma int_of_digits_range:
  "\<forall>c\<in>set ds. is_digit c \<Longrightarrow> 0 \<le> int_of_digits ds \<and> int_of_digits ds < 10 ^ length ds"
proof (induction ds rule: rev_induct)
  case Nil
  show ?case by (simp add: int_of_digits_def)
next
  case (snoc c ds)
  then have ih: "0 \<le> int_of_digits ds" "int_of_digits ds < 10 ^ length ds" by simp_all
  have c: "0 \<le> digit_val c" "digit_val c \<le> 9"
    using snoc.prems digit_val_range by simp_all
  have v: "int_of_digits (ds @ [c]) = int_of_digits ds * 10 + digit_val c"
    by (simp add: int_of_digits_def)
  from ih have "int_of_digits ds + 1 \<le> 10 ^ length ds" by simp
  then have "(int_of_digits ds + 1) * 10 \<le> 10 ^ length ds * 10" by simp
  with ih c show ?case unfolding v by (simp add: algebra_simps)
qed

lemma int_of_digits_div:
  assumes "\<forall>c\<in>set fp. is_digit c"
  shows "int_of_digits (ip @ fp) div 10 ^ length fp = int_of_digits ip"
proof -
  have r: "0 \<le> int_of_digits fp" "int_of_digits fp < 10 ^ length fp"
    using int_of_digits_range [OF assms] by simp_all
  show ?thesis
    unfolding int_of_digits_append
    by (rule div_mod_unique(1) [of _ _ _ "int_of_digits fp"]) (use r in \<open>simp_all add: algebra_simps\<close>)
qed

lemma not_digit_point: "\<not> is_digit CHR ''.''" and not_digit_minus: "\<not> is_digit CHR ''-''"
  by (simp_all add: is_digit_def code_def)

lemma dropWhile_takeWhile_same: "dropWhile P (takeWhile P xs) = []"
  by (induction xs) auto

lemma filter_takeWhile_same: "filter P (takeWhile P xs) = takeWhile P xs"
  by (induction xs) simp_all

lemma takeWhile_digits: "\<forall>c\<in>set (takeWhile is_digit s). is_digit c"
  by (auto dest: set_takeWhileD)

lemma match_number_parts:
  obtains fp where "\<forall>c\<in>set fp. is_digit c"
    and "takeWhile is_digit (match_number s) = takeWhile is_digit s"
    and "drop 1 (dropWhile is_digit (match_number s)) = fp"
    and "filter is_digit (match_number s) = takeWhile is_digit s @ fp"
proof (cases "\<exists>r. dropWhile is_digit s = CHR ''.'' # r")
  case False
  have m: "match_number s = takeWhile is_digit s"
  proof (cases "dropWhile is_digit s")
    case Nil
    show ?thesis unfolding match_number_def Let_def Nil by simp
  next
    case (Cons c r)
    with False have "c \<noteq> CHR ''.''" by simp
    then show ?thesis unfolding match_number_def Let_def Cons by simp
  qed
  show ?thesis
    by (rule that [of "[]"])
      (simp_all only: m dropWhile_takeWhile_same filter_takeWhile_same takeWhile_idem
        drop.simps append_Nil2 list.set ball_empty)
next
  case True
  then obtain r where r: "dropWhile is_digit s = CHR ''.'' # r" ..
  have m: "match_number s = takeWhile is_digit s @ CHR ''.'' # takeWhile is_digit r"
    unfolding match_number_def Let_def r by simp
  show ?thesis
  proof (rule that [of "takeWhile is_digit r"])
    show "\<forall>c\<in>set (takeWhile is_digit r). is_digit c"
      by (rule takeWhile_digits)
    show "takeWhile is_digit (match_number s) = takeWhile is_digit s"
      unfolding m using takeWhile_digits [of s]
      by (simp add: not_digit_point)
    show "drop 1 (dropWhile is_digit (match_number s)) = takeWhile is_digit r"
      unfolding m using takeWhile_digits [of s]
      by (simp add: not_digit_point)
    show "filter is_digit (match_number s) = takeWhile is_digit s @ takeWhile is_digit r"
      unfolding m by (simp add: filter_takeWhile_same not_digit_point)
  qed
qed

lemma takeWhile_match_number:
  "takeWhile is_digit (match_number s) = takeWhile is_digit s"
  by (rule match_number_parts [of s])

lemma float_of_match:
  assumes "int_of_digits (filter is_digit (match_number s)) < 2 ^ 53"
  shows "float_trunc
      (int_of_digits (takeWhile is_digit (match_number s)
         @ drop 1 (dropWhile is_digit (match_number s))))
      (length (drop 1 (dropWhile is_digit (match_number s))))
    = Some (int_of_digits (takeWhile is_digit s))"
proof -
  obtain fp where fp: "\<forall>c\<in>set fp. is_digit c"
    and t: "takeWhile is_digit (match_number s) = takeWhile is_digit s"
    and d: "drop 1 (dropWhile is_digit (match_number s)) = fp"
    and f: "filter is_digit (match_number s) = takeWhile is_digit s @ fp"
    by (rule match_number_parts)
  have all: "\<forall>c\<in>set (takeWhile is_digit s @ fp). is_digit c"
    using fp by (auto dest: set_takeWhileD)
  have "0 \<le> int_of_digits (takeWhile is_digit s @ fp)"
    using int_of_digits_range [OF all] by simp
  moreover have "int_of_digits (takeWhile is_digit s @ fp) < 2 ^ 53"
    using assms unfolding f .
  ultimately have "float_trunc (int_of_digits (takeWhile is_digit s @ fp)) (length fp)
      = Some (int_of_digits (takeWhile is_digit s @ fp) div 10 ^ length fp)"
    by (rule float_trunc_exact)
  then show ?thesis
    unfolding t d int_of_digits_div [OF fp] .
qed

lemma match_number_hd:
  assumes "s \<noteq> []" "is_digit (hd s)"
  shows "match_number s \<noteq> [] \<and> hd (match_number s) = hd s"
proof -
  obtain c cs where s: "s = c # cs" using assms(1) by (cases s) auto
  with assms(2) have c: "is_digit c" by simp
  show ?thesis
    unfolding s match_number_def Let_def using c by (simp split: list.splits)
qed

lemma int_float_plain:
  assumes "s \<noteq> []" "is_digit (hd s)"
    and "token_digits (match_number s) < 2 ^ 53"
  shows "int_float (match_number s) = Some (truncated_value (match_number s))"
proof -
  have h: "match_number s \<noteq> []" "hd (match_number s) = hd s"
    using match_number_hd [OF assms(1,2)] by simp_all
  have nm: "hd (match_number s) \<noteq> CHR ''-''"
    using assms(2) h not_digit_minus by auto
  note t = takeWhile_match_number [of s]
  show ?thesis
    using float_of_match [OF assms(3) [unfolded token_digits_def]] nm
    by (simp add: int_float_def truncated_value_def t)
qed

lemma int_float_minus:
  assumes "token_digits (CHR ''-'' # match_number s) < 2 ^ 53"
  shows "int_float (CHR ''-'' # match_number s) = Some (truncated_value (CHR ''-'' # match_number s))"
proof -
  have a: "int_of_digits (filter is_digit (match_number s)) < 2 ^ 53"
    using assms by (simp add: token_digits_def not_digit_minus)
  note t = takeWhile_match_number [of s]
  show ?thesis
    using float_of_match [OF a]
    by (simp add: int_float_def truncated_value_def t)
qed

lemma first_number_shape:
  "first_number s = Some tok \<Longrightarrow>
     \<exists>r. r \<noteq> [] \<and> is_digit (hd r) \<and> (tok = match_number r \<or> tok = CHR ''-'' # match_number r)"
proof (induction s)
  case Nil
  then show ?case by simp
next
  case (Cons c cs)
  show ?case
  proof (cases "is_digit c")
    case True
    with Cons.prems have "tok = match_number (c # cs)" by simp
    with True show ?thesis by (intro exI [of _ "c # cs"]) simp
  next
    case False
    show ?thesis
    proof (cases "c = CHR ''-'' \<and> cs \<noteq> [] \<and> is_digit (hd cs)")
      case True
      with False Cons.prems have "tok = CHR ''-'' # match_number cs" by simp
      with True show ?thesis by (intro exI [of _ cs]) simp
    next
      case no: False
      with False Cons.prems have "first_number cs = Some tok" by (simp split: if_splits)
      then show ?thesis by (rule Cons.IH)
    qed
  qed
qed

lemma int_float_token:
  assumes "first_number s = Some tok" "token_digits tok < 2 ^ 53"
  shows "int_float tok = Some (truncated_value tok)"
proof -
  obtain r where r: "r \<noteq> []" "is_digit (hd r)"
    and tok: "tok = match_number r \<or> tok = CHR ''-'' # match_number r"
    using first_number_shape [OF assms(1)] by blast
  from tok show ?thesis
  proof
    assume "tok = match_number r"
    with assms(2) r show ?thesis by (simp add: int_float_plain)
  next
    assume "tok = CHR ''-'' # match_number r"
    with assms(2) show ?thesis by (simp add: int_float_minus)
  qed
qed

text \<open>
  Where the number branch does what it sets out to do. For a format string that,
  lower-cased, contains \<open>number\<close> or \<open>int\<close>: a text with no numeric token is returned
  unchanged as a string, and a first token whose digits spell a number below \<open>2 ^ 53\<close> is
  returned as the integer left when its fractional part is dropped.
\<close>

lemma format_answer_number_branch:
  assumes "contains ''number'' (lower f) \<or> contains ''int'' (lower f)"
  shows "(first_number answer_text = None \<longrightarrow>
            format_answer loads answer_text (JStr f) = Inr (JStr answer_text))
    \<and> (\<forall>tok. first_number answer_text = Some tok \<longrightarrow> token_digits tok < 2 ^ 53 \<longrightarrow>
            format_answer loads answer_text (JStr f) = Inr (JInt (truncated_value tok)))"
proof -
  have "lower f \<noteq> []"
    using assms contains_nonempty by fastforce
  then have ne: "f \<noteq> []"
    by (rule lower_nonempty)
  show ?thesis
    using assms ne by (auto simp: format_answer_def int_float_token)
qed

lemma format_answer_number_branch_example:
  "format_answer demo_loads ''The answer is 42.'' (JStr ''number'') = Inr (JInt 42)
   \<and> format_answer demo_loads ''no digits here'' (JStr ''Integer'') = Inr (JStr ''no digits here'')"
proof -
  have t: "first_number ''The answer is 42.'' = Some ''42.''"
    by (simp add: number_eval code_def)
  have n: "first_number ''no digits here'' = None"
    by (simp add: number_eval code_def)
  have d: "token_digits ''42.'' < 2 ^ 53"
    by (simp add: token_digits_def number_eval code_def)
  have v: "truncated_value ''42.'' = 42"
    by (simp add: truncated_value_def number_eval code_def)
  show ?thesis
    using format_answer_number_branch [of "''number''" "''The answer is 42.''" demo_loads] t d v
      format_answer_number_branch [of "''Integer''" "''no digits here''" demo_loads] n
    by (simp add: lower_eval)
qed

text \<open>
  C8. The number branch takes the first numeric token and converts it by
  \<open>int(float(token))\<close>. The conversion through \<open>float\<close> loses digits: the token
  \<open>9007199254740993\<close>, which is \<open>2 ^ 53 + 1\<close>, is the first token of the text and has
  no fractional part, so the integer it spells is \<open>9007199254740993\<close>; the code returns
  \<open>9007199254740992\<close>.
\<close>

theorem format_answer_loses_precision:
  "first_number ''9007199254740993'' = Some ''9007199254740993''
   \<and> truncated_value ''9007199254740993'' = 9007199254740993
   \<and> format_answer demo_loads ''9007199254740993'' (JStr ''number'') = Inr (JInt 9007199254740992)"
  by (simp add: format_answer_def truncated_value_def lower_eval number_eval)

section \<open>The calls made in a run\<close>

lemma bind_grows:
  assumes "\<And>s. prefix (snd s) (snd (snd (m s)))"
    and "\<And>a s. prefix (snd s) (snd (snd (f a s)))"
  shows "prefix (snd s) (snd (snd (bind m f s)))"
proof -
  obtain r s' where Pair: "m s = (r, s')"
    by (meson surj_pair)
  have p: "prefix (snd s) (snd s')"
    using assms(1) [of s] Pair by simp
  show ?thesis
  proof (cases r)
    case (Inl e)
    with Pair p show ?thesis by (simp add: bind_def)
  next
    case (Inr a)
    with Pair have "bind m f s = f a s'" by (simp add: bind_def)
    with p assms(2) [of s' a] show ?thesis by (auto intro: prefix_order.order_trans)
  qed
qed

lemma lift_grows: "prefix (snd s) (snd (snd (lift r s)))"
  by (simp add: lift_def)

lemma call_browser_trace: "snd (snd (call_browser sv url st)) = snd st @ [Render url]"
  by (simp add: call_browser_def split: prod.splits)

lemma call_chat_trace: "snd (snd (call_chat sv req st)) = snd st @ [Chat req]"
  by (simp add: call_chat_def split: prod.splits)

lemma call_get_trace: "snd (snd (call_get sv url st)) = snd st @ [Get url]"
  by (simp add: call_get_def split: prod.splits)

lemma call_post_trace: "snd (snd (call_post sv url payload st)) = snd st @ [Post url payload]"
  by (simp add: call_post_def split: prod.splits)

lemma read_clock_trace: "read_clock sv st = (now, st1) \<Longrightarrow> snd st1 = snd st"
  by (auto simp: read_clock_def split: prod.splits)

lemma parse_grows: "prefix (snd s) (snd (snd (parse_quiz_with_llm lb sv pg s)))"
  unfolding parse_quiz_with_llm_def
  by (intro bind_grows lift_grows) (simp add: call_chat_trace)

lemma download_file_grows: "prefix (snd s) (snd (snd (download_file sv url s)))"
  unfolding download_file_def
  by (intro bind_grows lift_grows) (simp add: call_get_trace)

lemma download_files_grows: "prefix (snd s) (snd (snd (download_files sv urls s)))"
proof (induction urls arbitrary: s)
  case Nil
  show ?case by (simp add: lift_grows)
next
  case (Cons u us)
  show ?case
    unfolding download_files.simps
    by (intro bind_grows lift_grows download_file_grows Cons.IH)
qed

lemma download_step_grows: "prefix (snd s) (snd (snd (download_step sv q s)))"
  unfolding download_step_def
  by (intro bind_grows lift_grows)
    (auto intro!: bind_grows lift_grows download_files_grows)

lemma solve_with_llm_grows: "prefix (snd s) (snd (snd (solve_with_llm lb sv q fd s)))"
  unfolding solve_with_llm_def
  by (intro bind_grows lift_grows) (simp add: call_chat_trace)

lemma submit_answer_trace:
  "snd (snd (submit_answer sv submit_url email secret quiz_url answer st)) =
     snd st @ [Post submit_url
       (JObj [(''email'', email), (''secret'', secret), (''url'', quiz_url), (''answer'', answer)])]"
  by (simp add: submit_answer_def call_post_trace)

lemma after_render_grows:
  "prefix (snd s)
     (snd (snd (bind (parse_quiz_with_llm lb sv page_content)
       (\<lambda>quiz_info. bind (download_step sv quiz_info)
       (\<lambda>file_data. bind (solve_with_llm lb sv quiz_info file_data)
       (\<lambda>answer. bind (lift (py_get quiz_info ''submit_url''))
       (\<lambda>submit_url. submit_answer sv submit_url email secret url answer)))) s)))"
  by (intro bind_grows lift_grows parse_grows download_step_grows solve_with_llm_grows)
    (simp add: submit_answer_trace)

lemma solve_single_quiz_renders_first:
  "\<exists>rest. snd (snd (solve_single_quiz lb sv email secret url st)) = snd st @ Render url # rest"
proof -
  obtain r st1 where Pair: "render_page sv url st = (r, st1)"
    by (meson surj_pair)
  have t: "snd st1 = snd st @ [Render url]"
    using call_browser_trace [of sv url st] Pair by (simp add: render_page_def)
  show ?thesis
  proof (cases r)
    case (Inl e)
    with Pair have "solve_single_quiz lb sv email secret url st = (Inl e, st1)"
      by (simp add: solve_single_quiz_def bind_def)
    with t show ?thesis by simp
  next
    case (Inr page_content)
    with Pair have "prefix (snd st1) (snd (snd (solve_single_quiz lb sv email secret url st)))"
      using after_render_grows [of st1 lb sv page_content email secret url]
      by (simp add: solve_single_quiz_def bind_Inr)
    then show ?thesis
      unfolding t by (auto simp: prefix_def)
  qed
qed


lemma rendered_append: "rendered (xs @ ys) = rendered xs @ rendered ys"
  by (induction xs rule: rendered.induct) simp_all

lemma posted_append: "posted (xs @ ys) = posted xs @ posted ys"
  by (induction xs rule: posted.induct) simp_all

lemma chain_loop_stop:
  "\<not> truthy current_url \<Longrightarrow>
     chain_loop lb sv email secret start_time current_url results st = Some (results, st)"
  by (subst chain_loop.simps) simp

lemma chain_loop_timeout:
  assumes "truthy current_url" "read_clock sv st = (now, st1)" "\<not> now - start_time < max_time"
  shows "chain_loop lb sv email secret start_time current_url results st = Some (results, st1)"
  using assms by (subst chain_loop.simps) simp

lemma chain_loop_iterate:
  assumes "truthy current_url" "read_clock sv st = (now, st1)" "now - start_time < max_time"
  shows "chain_loop lb sv email secret start_time current_url results st =
    (case chain_body lb sv email secret current_url results st1 of
       Continue next_url results' st2 \<Rightarrow>
         chain_loop lb sv email secret start_time next_url results' st2
     | Break results' st2 \<Rightarrow> Some (results', st2))"
  using assms by (subst chain_loop.simps) simp

lemma chain_body_error:
  "solve_single_quiz lb sv email secret current_url st = (Inl e, st') \<Longrightarrow>
     chain_body lb sv email secret current_url results st = Break results st'"
  by (simp add: chain_body_def)

lemma chain_body_result:
  assumes "solve_single_quiz lb sv email secret current_url st = (Inr result, st')"
    and "py_get result ''url'' = Inr next_url"
  shows "chain_body lb sv email secret current_url results st =
    (if truthy next_url then Continue next_url (results @ [result]) st'
     else Break (results @ [result]) st')"
proof -
  obtain kvs where "result = JObj kvs"
    using assms(2) by (cases result) simp_all
  then obtain c where "py_get result ''correct'' = Inr c"
    by simp
  with assms show ?thesis
    by (simp add: chain_body_def)
qed

text \<open>An error of any step of \<open>solve_single_quiz\<close> is the error of \<open>solve_single_quiz\<close>.\<close>

lemma solve_single_quiz_render_error:
  "render_page sv url st = (Inl e, st') \<Longrightarrow>
     solve_single_quiz lb sv email secret url st = (Inl e, st')"
  by (simp add: solve_single_quiz_def bind_Inl)

lemma solve_single_quiz_parse_error:
  "render_page sv url st = (Inr page_content, st1) \<Longrightarrow>
   parse_quiz_with_llm lb sv page_content st1 = (Inl e, st') \<Longrightarrow>
     solve_single_quiz lb sv email secret url st = (Inl e, st')"
  by (simp add: solve_single_quiz_def bind_Inr bind_Inl)

lemma solve_single_quiz_fetch_error:
  "render_page sv url st = (Inr page_content, st1) \<Longrightarrow>
   parse_quiz_with_llm lb sv page_content st1 = (Inr quiz_info, st2) \<Longrightarrow>
   download_step sv quiz_info st2 = (Inl e, st') \<Longrightarrow>
     solve_single_quiz lb sv email secret url st = (Inl e, st')"
  by (simp add: solve_single_quiz_def bind_Inr bind_Inl)

lemma solve_single_quiz_answer_error:
  "render_page sv url st = (Inr page_content, st1) \<Longrightarrow>
   parse_quiz_with_llm lb sv page_content st1 = (Inr quiz_info, st2) \<Longrightarrow>
   download_step sv quiz_info st2 = (Inr file_data, st3) \<Longrightarrow>
   solve_with_llm lb sv quiz_info file_data st3 = (Inl e, st') \<Longrightarrow>
     solve_single_quiz lb sv email secret url st = (Inl e, st')"
  by (simp add: solve_single_quiz_def bind_Inr bind_Inl)

lemma solve_single_quiz_submit:
  "render_page sv url st = (Inr page_content, st1) \<Longrightarrow>
   parse_quiz_with_llm lb sv page_content st1 = (Inr quiz_info, st2) \<Longrightarrow>
   download_step sv quiz_info st2 = (Inr file_data, st3) \<Longrightarrow>
   solve_with_llm lb sv quiz_info file_data st3 = (Inr answer, st4) \<Longrightarrow>
   py_get quiz_info ''submit_url'' = Inr submit_url \<Longrightarrow>
     solve_single_quiz lb sv email secret url st =
       submit_answer sv submit_url email secret url answer st4"
  by (simp add: solve_single_quiz_def bind_Inr bind_lift_Inr)

lemmas run_eval = read_clock_def call_browser_def call_chat_def call_get_def call_post_def
  render_page_def parse_quiz_with_llm_def parse_request_def download_step_def
  solve_with_llm_def build_messages_def submit_answer_def solve_single_quiz_def bind_def
  lift_def format_answer_def strip_def is_space_def code_def max_time_def

lemmas demo_eval = demo_services_def demo_lib_def demo_loads_def demo_grade_def quiz_reply_def
  quiz_reply_no_submit_def


section \<open>The time budget\<close>

lemma solve_quiz_chain_start:
  "solve_quiz_chain lb sv email secret initial_url st =
     chain_loop lb sv email secret (fst (read_clock sv st)) initial_url [] (snd (read_clock sv st))"
  by (simp add: solve_quiz_chain_def split: prod.splits)

text \<open>
  C4. \<open>max_time\<close> is 180 seconds. At the loop test, with a URL to go to and the clock read
  as \<open>now\<close>: once \<open>now - start_time\<close> has reached \<open>max_time\<close> the loop ends with the
  results it has and calls no service; an iteration is run exactly when the elapsed time
  is below \<open>max_time\<close>.
\<close>

theorem time_guard:
  assumes "truthy current_url" and "read_clock sv st = (now, st1)"
  shows "max_time = 180
    \<and> (max_time \<le> now - start_time \<longrightarrow>
          chain_loop lb sv email secret start_time current_url results st = Some (results, st1)
          \<and> snd st1 = snd st)
    \<and> (now - start_time < max_time \<longrightarrow>
          chain_loop lb sv email secret start_time current_url results st =
            (case chain_body lb sv email secret current_url results st1 of
               Continue next_url results' st2 \<Rightarrow>
                 chain_loop lb sv email secret start_time next_url results' st2
             | Break results' st2 \<Rightarrow> Some (results', st2)))"
  using chain_loop_timeout [OF assms] chain_loop_iterate [OF assms] read_clock_trace [OF assms(2)]
  by (simp add: max_time_def)

theorem time_guard_witness:
  "chain_loop demo_lib (demo_services quiz_reply JNull 0) (JStr ''e'') (JStr ''k'') 0
     (JStr ''u3'') [JNull] (180, []) = Some ([JNull], (190, []))
   \<and> map_option (\<lambda>r. (fst r, rendered (snd (snd r))))
       (chain_loop demo_lib (demo_services quiz_reply JNull 0) (JStr ''e'') (JStr ''k'') 0
          (JStr ''u3'') [JNull] (170, []))
     = Some ([JNull, JObj [(''correct'', JBool True)]], [JStr ''u3''])"
proof -
  let ?sv = "demo_services quiz_reply JNull 0"
  let ?e = "JStr ''e''" and ?k = "JStr ''k''"
  let ?r3 = "JObj [(''correct'', JBool True)]"
  define tr3 where "tr3 = snd (snd (solve_single_quiz demo_lib ?sv ?e ?k (JStr ''u3'') (180, [])))"
  have q3: "solve_single_quiz demo_lib ?sv ?e ?k (JStr ''u3'') (180, []) = (Inr ?r3, (180, tr3))"
    unfolding tr3_def by (simp add: run_eval demo_eval)
  have rd: "rendered tr3 = [JStr ''u3'']"
    unfolding tr3_def by (simp add: run_eval demo_eval)
  have late: "read_clock ?sv (180, []) = (180, (190, []))"
    and early: "read_clock ?sv (170, []) = (170, (180, []))"
    by (simp_all add: run_eval demo_eval)
  have tu: "truthy (JStr ''u3'')"
    by simp
  have g1: "max_time \<le> 180 - (0::real)" and g2: "170 - (0::real) < max_time"
    by (simp_all add: max_time_def)
  have a: "chain_loop demo_lib ?sv ?e ?k 0 (JStr ''u3'') [JNull] (180, []) =
      Some ([JNull], (190, []))"
    using time_guard [OF tu late, of 0 demo_lib ?e ?k "[JNull]"] g1 by blast
  have "chain_loop demo_lib ?sv ?e ?k 0 (JStr ''u3'') [JNull] (170, []) =
      (case chain_body demo_lib ?sv ?e ?k (JStr ''u3'') [JNull] (180, []) of
         Continue next_url results' st2 \<Rightarrow> chain_loop demo_lib ?sv ?e ?k 0 next_url results' st2
       | Break results' st2 \<Rightarrow> Some (results', st2))"
    using time_guard [OF tu early, of 0 demo_lib ?e ?k "[JNull]"] g2 by blast
  also have "\<dots> = Some ([JNull, ?r3], (180, tr3))"
    by (simp add: chain_body_def q3)
  finally have b: "chain_loop demo_lib ?sv ?e ?k 0 (JStr ''u3'') [JNull] (170, []) =
      Some ([JNull, ?r3], (180, tr3))" .
  show ?thesis
    unfolding a b by (simp add: rd)
qed


section \<open>Errors end the chain\<close>

text \<open>
  C2. \<open>solve_quiz_chain\<close> has no error result: the handler of the loop catches every
  exception of the body, and nothing outside the \<open>try\<close> can raise. When the quiz of an
  iteration fails, in whichever step (the five lemmas above), the loop ends at once and
  returns the results of the iterations before it, unchanged.
\<close>

theorem failed_step_keeps_earlier_results:
  assumes "truthy current_url" and "read_clock sv st = (now, st1)"
    and "now - start_time < max_time"
    and "solve_single_quiz lb sv email secret current_url st1 = (Inl e, st2)"
  shows "chain_loop lb sv email secret start_time current_url results st = Some (results, st2)"
  using chain_loop_iterate [OF assms(1,2,3)] chain_body_error [OF assms(4)]
  by simp

theorem failed_step_keeps_earlier_results_witness:
  "map_option (\<lambda>r. (fst r, length (fst r), rendered (snd (snd r))))
     (solve_quiz_chain demo_lib (demo_services quiz_reply (JStr ''u2'') 0)
        (JStr ''e'') (JStr ''k'') (JStr ''u1'') (0, []))
   = Some ([JObj [(''correct'', JBool True), (''url'', JStr ''u2'')]], 1,
           [JStr ''u1'', JStr ''u2''])"
proof -
  let ?sv = "demo_services quiz_reply (JStr ''u2'') 0"
  let ?e = "JStr ''e''" and ?k = "JStr ''k''"
  let ?r1 = "JObj [(''correct'', JBool True), (''url'', JStr ''u2'')]"
  define tr1 where "tr1 = snd (snd (solve_single_quiz demo_lib ?sv ?e ?k (JStr ''u1'') (20, [])))"
  have q1: "solve_single_quiz demo_lib ?sv ?e ?k (JStr ''u1'') (20, []) = (Inr ?r1, (20, tr1))"
    unfolding tr1_def by (simp add: run_eval demo_eval)
  have rd: "rendered tr1 = [JStr ''u1'']"
    unfolding tr1_def by (simp add: run_eval demo_eval)
  have c0: "read_clock ?sv (0, []) = (0, (10, []))"
    and c1: "read_clock ?sv (10, []) = (10, (20, []))"
    and c2: "read_clock ?sv (20, tr1) = (20, (30, tr1))"
    by (simp_all add: run_eval demo_eval)
  have it1: "chain_loop demo_lib ?sv ?e ?k 0 (JStr ''u1'') [] (10, []) =
      chain_loop demo_lib ?sv ?e ?k 0 (JStr ''u2'') [?r1] (20, tr1)"
    using chain_loop_iterate [OF _ c1, of "JStr ''u1''" 0 demo_lib ?e ?k "[]"]
      chain_body_result [OF q1, of "JStr ''u2''" "[]"]
    by (simp add: max_time_def)
  have q2: "solve_single_quiz demo_lib ?sv ?e ?k (JStr ''u2'') (30, tr1) =
      (Inl (ServiceError ''timeout''), (30, tr1 @ [Render (JStr ''u2'')]))"
    by (simp add: run_eval demo_eval)
  have "chain_loop demo_lib ?sv ?e ?k 0 (JStr ''u2'') [?r1] (20, tr1) =
      Some ([?r1], (30, tr1 @ [Render (JStr ''u2'')]))"
    using failed_step_keeps_earlier_results [OF _ c2 _ q2, of 0 "[?r1]"]
    by (simp add: max_time_def)
  then have run: "solve_quiz_chain demo_lib ?sv ?e ?k (JStr ''u1'') (0, []) =
      Some ([?r1], (30, tr1 @ [Render (JStr ''u2'')]))"
    by (simp add: solve_quiz_chain_def c0 it1)
  show ?thesis
    unfolding run by (simp add: rd rendered_append)
qed

section \<open>Following the grader\<close>

text \<open>
  C5. An iteration whose submission result has \<open>correct\<close> true
  appends the result. With a next URL the loop goes on with that URL as \<open>current_url\<close>;
  when the time test then admits the next iteration, its first service call is the
  rendering of exactly that URL. Without a next URL the chain ends with the results.
\<close>

theorem correct_answer_follows_next_url:
  assumes "truthy current_url" and "read_clock sv st = (now, st1)"
    and "now - start_time < max_time"
    and "solve_single_quiz lb sv email secret current_url st1 = (Inr result, st2)"
    and "py_get result ''correct'' = Inr (JBool True)"
    and "py_get result ''url'' = Inr next_url"
  shows "(truthy next_url \<longrightarrow>
            chain_loop lb sv email secret start_time current_url results st =
              chain_loop lb sv email secret start_time next_url (results @ [result]) st2
            \<and> (read_clock sv st2 = (later, st_next) \<longrightarrow> later - start_time < max_time \<longrightarrow>
                 chain_loop lb sv email secret start_time current_url results st =
                   (case chain_body lb sv email secret next_url (results @ [result]) st_next of
                      Continue url' results' st' \<Rightarrow>
                        chain_loop lb sv email secret start_time url' results' st'
                    | Break results' st' \<Rightarrow> Some (results', st'))
                 \<and> (\<exists>rest. snd (snd (solve_single_quiz lb sv email secret next_url st_next)) =
                       snd st2 @ Render next_url # rest)))
    \<and> (\<not> truthy next_url \<longrightarrow>
          chain_loop lb sv email secret start_time current_url results st =
            Some (results @ [result], st2))"
proof (intro conjI impI)
  assume t: "truthy next_url"
  show go: "chain_loop lb sv email secret start_time current_url results st =
      chain_loop lb sv email secret start_time next_url (results @ [result]) st2"
    using chain_loop_iterate [OF assms(1,2,3)] chain_body_result [OF assms(4,6)] t by simp
  assume c: "read_clock sv st2 = (later, st_next)" and g: "later - start_time < max_time"
  show "chain_loop lb sv email secret start_time current_url results st =
      (case chain_body lb sv email secret next_url (results @ [result]) st_next of
         Continue url' results' st' \<Rightarrow> chain_loop lb sv email secret start_time url' results' st'
       | Break results' st' \<Rightarrow> Some (results', st'))"
    unfolding go by (rule chain_loop_iterate [OF t c g])
  show "\<exists>rest. snd (snd (solve_single_quiz lb sv email secret next_url st_next)) =
      snd st2 @ Render next_url # rest"
    using solve_single_quiz_renders_first [of lb sv email secret next_url st_next]
      read_clock_trace [OF c] by simp
next
  assume "\<not> truthy next_url"
  then show "chain_loop lb sv email secret start_time current_url results st =
      Some (results @ [result], st2)"
    using chain_loop_iterate [OF assms(1,2,3)] chain_body_result [OF assms(4,6)] by simp
qed

theorem correct_answer_follows_next_url_witness:
  "map_option (\<lambda>r. (fst r, rendered (snd (snd r))))
     (chain_loop demo_lib (demo_services quiz_reply (JStr ''u2'') 0) (JStr ''e'') (JStr ''k'') 0
        (JStr ''u1'') [] (10, []))
   = Some ([JObj [(''correct'', JBool True), (''url'', JStr ''u2'')]], [JStr ''u1'', JStr ''u2''])
   \<and> map_option (\<lambda>r. (fst r, rendered (snd (snd r))))
     (chain_loop demo_lib (demo_services quiz_reply (JStr ''u2'') 0) (JStr ''e'') (JStr ''k'') 0
        (JStr ''u3'') [] (10, []))
   = Some ([JObj [(''correct'', JBool True)]], [JStr ''u3''])"
proof -
  let ?sv = "demo_services quiz_reply (JStr ''u2'') 0"
  let ?e = "JStr ''e''" and ?k = "JStr ''k''"
  let ?r1 = "JObj [(''correct'', JBool True), (''url'', JStr ''u2'')]"
  let ?r3 = "JObj [(''correct'', JBool True)]"
  define tr1 where "tr1 = snd (snd (solve_single_quiz demo_lib ?sv ?e ?k (JStr ''u1'') (20, [])))"
  define tr3 where "tr3 = snd (snd (solve_single_quiz demo_lib ?sv ?e ?k (JStr ''u3'') (20, [])))"
  have q1: "solve_single_quiz demo_lib ?sv ?e ?k (JStr ''u1'') (20, []) = (Inr ?r1, (20, tr1))"
    unfolding tr1_def by (simp add: run_eval demo_eval)
  have q3: "solve_single_quiz demo_lib ?sv ?e ?k (JStr ''u3'') (20, []) = (Inr ?r3, (20, tr3))"
    unfolding tr3_def by (simp add: run_eval demo_eval)
  have rd: "rendered tr1 = [JStr ''u1'']" "rendered tr3 = [JStr ''u3'']"
    unfolding tr1_def tr3_def by (simp_all add: run_eval demo_eval)
  have c1: "read_clock ?sv (10, []) = (10, (20, []))"
    and c2: "read_clock ?sv (20, tr1) = (20, (30, tr1))"
    by (simp_all add: run_eval demo_eval)
  have g1: "(10::real) - 0 < max_time" and g2: "(20::real) - 0 < max_time"
    by (simp_all add: max_time_def)
  have tu: "truthy (JStr ''u1'')" "truthy (JStr ''u2'')" "truthy (JStr ''u3'')" "\<not> truthy JNull"
    by simp_all
  have p1: "py_get ?r1 ''correct'' = Inr (JBool True)" "py_get ?r1 ''url'' = Inr (JStr ''u2'')"
    and p3: "py_get ?r3 ''correct'' = Inr (JBool True)" "py_get ?r3 ''url'' = Inr JNull"
    by simp_all
  have q2: "solve_single_quiz demo_lib ?sv ?e ?k (JStr ''u2'') (30, tr1) =
      (Inl (ServiceError ''timeout''), (30, tr1 @ [Render (JStr ''u2'')]))"
    by (simp add: run_eval demo_eval)
  have "chain_loop demo_lib ?sv ?e ?k 0 (JStr ''u1'') [] (10, []) =
      (case chain_body demo_lib ?sv ?e ?k (JStr ''u2'') ([] @ [?r1]) (30, tr1) of
         Continue url' results' st' \<Rightarrow> chain_loop demo_lib ?sv ?e ?k 0 url' results' st'
       | Break results' st' \<Rightarrow> Some (results', st'))"
    using correct_answer_follows_next_url
      [OF tu(1) c1 g1 q1 p1, where results = "[]" and later = 20 and st_next = "(30, tr1)"]
      tu(2) c2 g2
    by blast
  also have "\<dots> = Some ([?r1], (30, tr1 @ [Render (JStr ''u2'')]))"
    by (simp add: chain_body_def q2)
  finally have a: "chain_loop demo_lib ?sv ?e ?k 0 (JStr ''u1'') [] (10, []) =
      Some ([?r1], (30, tr1 @ [Render (JStr ''u2'')]))" .
  have "chain_loop demo_lib ?sv ?e ?k 0 (JStr ''u3'') [] (10, []) = Some ([] @ [?r3], (20, tr3))"
    using correct_answer_follows_next_url [OF tu(3) c1 g1 q3 p3, where results = "[]"] tu(4)
    by blast
  then have b: "chain_loop demo_lib ?sv ?e ?k 0 (JStr ''u3'') [] (10, []) = Some ([?r3], (20, tr3))"
    by simp
  show ?thesis
    unfolding a b by (simp add: rd rendered_append)
qed

text \<open>
  C6. An iteration whose submission result has a false \<open>correct\<close> appends the result,
  one more than before. With a next URL the loop goes on with that URL as \<open>current_url\<close>,
  not with the URL just tried; without one the chain ends with the results.
\<close>

theorem incorrect_answer_follows_next_url:
  assumes "truthy current_url" and "read_clock sv st = (now, st1)"
    and "now - start_time < max_time"
    and "solve_single_quiz lb sv email secret current_url st1 = (Inr result, st2)"
    and "py_get result ''correct'' = Inr correct" and "\<not> truthy correct"
    and "py_get result ''url'' = Inr next_url"
  shows "(truthy next_url \<longrightarrow>
            chain_loop lb sv email secret start_time current_url results st =
              chain_loop lb sv email secret start_time next_url (results @ [result]) st2)
    \<and> (\<not> truthy next_url \<longrightarrow>
          chain_loop lb sv email secret start_time current_url results st =
            Some (results @ [result], st2))
    \<and> length (results @ [result]) = length results + 1"
  using chain_loop_iterate [OF assms(1,2,3)] chain_body_result [OF assms(4,7)]
  by simp

theorem incorrect_answer_follows_next_url_witness:
  "map_option (\<lambda>r. (fst r, rendered (snd (snd r))))
     (chain_loop demo_lib (demo_services quiz_reply (JStr ''u3'') 0) (JStr ''e'') (JStr ''k'') 0
        (JStr ''u2'') [] (10, []))
   = Some ([JObj [(''correct'', JBool False), (''url'', JStr ''u3''), (''reason'', JStr ''wrong'')]],
           [JStr ''u2'', JStr ''u3''])
   \<and> map_option (\<lambda>r. (fst r, rendered (snd (snd r))))
     (chain_loop demo_lib (demo_services quiz_reply (JStr ''u3'') 0) (JStr ''e'') (JStr ''k'') 0
        (JStr ''u9'') [] (10, []))
   = Some ([JObj [(''correct'', JBool False), (''url'', JStr [])]], [JStr ''u9''])"
proof -
  let ?sv = "demo_services quiz_reply (JStr ''u3'') 0"
  let ?e = "JStr ''e''" and ?k = "JStr ''k''"
  let ?r2 = "JObj [(''correct'', JBool False), (''url'', JStr ''u3''), (''reason'', JStr ''wrong'')]"
  let ?r9 = "JObj [(''correct'', JBool False), (''url'', JStr [])]"
  define tr2 where "tr2 = snd (snd (solve_single_quiz demo_lib ?sv ?e ?k (JStr ''u2'') (20, [])))"
  define tr9 where "tr9 = snd (snd (solve_single_quiz demo_lib ?sv ?e ?k (JStr ''u9'') (20, [])))"
  have q2: "solve_single_quiz demo_lib ?sv ?e ?k (JStr ''u2'') (20, []) = (Inr ?r2, (20, tr2))"
    unfolding tr2_def by (simp add: run_eval demo_eval)
  have q9: "solve_single_quiz demo_lib ?sv ?e ?k (JStr ''u9'') (20, []) = (Inr ?r9, (20, tr9))"
    unfolding tr9_def by (simp add: run_eval demo_eval)
  have rd: "rendered tr2 = [JStr ''u2'']" "rendered tr9 = [JStr ''u9'']"
    unfolding tr2_def tr9_def by (simp_all add: run_eval demo_eval)
  have c1: "read_clock ?sv (10, []) = (10, (20, []))"
    and c2: "read_clock ?sv (20, tr2) = (20, (30, tr2))"
    by (simp_all add: run_eval demo_eval)
  have g: "(10::real) - 0 < max_time" "(20::real) - 0 < max_time"
    by (simp_all add: max_time_def)
  have tu: "truthy (JStr ''u2'')" "truthy (JStr ''u3'')" "truthy (JStr ''u9'')"
    "\<not> truthy (JStr [])" "\<not> truthy (JBool False)"
    by simp_all
  have p2: "py_get ?r2 ''correct'' = Inr (JBool False)" "py_get ?r2 ''url'' = Inr (JStr ''u3'')"
    and p9: "py_get ?r9 ''correct'' = Inr (JBool False)" "py_get ?r9 ''url'' = Inr (JStr [])"
    by simp_all
  have q3: "solve_single_quiz demo_lib ?sv ?e ?k (JStr ''u3'') (30, tr2) =
      (Inl (ServiceError ''timeout''), (30, tr2 @ [Render (JStr ''u3'')]))"
    by (simp add: run_eval demo_eval)
  have "chain_loop demo_lib ?sv ?e ?k 0 (JStr ''u2'') [] (10, []) =
      chain_loop demo_lib ?sv ?e ?k 0 (JStr ''u3'') ([] @ [?r2]) (20, tr2)"
    using incorrect_answer_follows_next_url
      [OF tu(1) c1 g(1) q2 p2(1) tu(5) p2(2), where results = "[]"] tu(2)
    by blast
  also have "\<dots> = Some ([?r2], (30, tr2 @ [Render (JStr ''u3'')]))"
    using chain_loop_iterate [OF tu(2) c2 g(2), of demo_lib ?e ?k "[?r2]"]
      chain_body_error [OF q3, of "[?r2]"]
    by simp
  finally have a: "chain_loop demo_lib ?sv ?e ?k 0 (JStr ''u2'') [] (10, []) =
      Some ([?r2], (30, tr2 @ [Render (JStr ''u3'')]))" .
  have "chain_loop demo_lib ?sv ?e ?k 0 (JStr ''u9'') [] (10, []) = Some ([] @ [?r9], (20, tr9))"
    using incorrect_answer_follows_next_url
      [OF tu(3) c1 g(1) q9 p9(1) tu(5) p9(2), where results = "[]"] tu(4)
    by blast
  then have b: "chain_loop demo_lib ?sv ?e ?k 0 (JStr ''u9'') [] (10, []) = Some ([?r9], (20, tr9))"
    by simp
  show ?thesis
    unfolding a b by (simp add: rd rendered_append)
qed

text \<open>
  C9. With an initial URL that is \<open>None\<close> or the empty string the chain reads the clock
  once, runs no iteration, calls no service and returns the empty list. A submission
  result whose \<open>url\<close> is the empty string ends the chain as one whose \<open>url\<close> is absent
  does: the result is appended and the loop is left.
\<close>

theorem empty_url_stops_chain:
  "(initial_url = JNull \<or> initial_url = JStr [] \<longrightarrow>
      solve_quiz_chain lb sv email secret initial_url st = Some ([], snd (read_clock sv st))
      \<and> snd (snd (read_clock sv st)) = snd st)
   \<and> (truthy current_url \<longrightarrow> read_clock sv st = (now, st1) \<longrightarrow> now - start_time < max_time \<longrightarrow>
      solve_single_quiz lb sv email secret current_url st1 = (Inr result, st2) \<longrightarrow>
      py_get result ''url'' = Inr (JStr []) \<or> py_get result ''url'' = Inr JNull \<longrightarrow>
      chain_loop lb sv email secret start_time current_url results st =
        Some (results @ [result], st2))"
proof (intro conjI impI)
  assume "initial_url = JNull \<or> initial_url = JStr []"
  then have f: "\<not> truthy initial_url" by auto
  obtain t st' where c: "read_clock sv st = (t, st')" by (meson surj_pair)
  show "solve_quiz_chain lb sv email secret initial_url st = Some ([], snd (read_clock sv st))"
    using chain_loop_stop [OF f] c by (simp add: solve_quiz_chain_def)
  show "snd (snd (read_clock sv st)) = snd st"
    using read_clock_trace [OF c] c by simp
next
  assume a: "truthy current_url" "read_clock sv st = (now, st1)" "now - start_time < max_time"
    "solve_single_quiz lb sv email secret current_url st1 = (Inr result, st2)"
    "py_get result ''url'' = Inr (JStr []) \<or> py_get result ''url'' = Inr JNull"
  from a(5) show "chain_loop lb sv email secret start_time current_url results st =
      Some (results @ [result], st2)"
  proof
    assume u: "py_get result ''url'' = Inr (JStr [])"
    show ?thesis
      using chain_loop_iterate [OF a(1,2,3)] chain_body_result [OF a(4) u] by simp
  next
    assume u: "py_get result ''url'' = Inr JNull"
    show ?thesis
      using chain_loop_iterate [OF a(1,2,3)] chain_body_result [OF a(4) u] by simp
  qed
qed

theorem empty_url_stops_chain_witness:
  "solve_quiz_chain demo_lib (demo_services quiz_reply JNull 0) (JStr ''e'') (JStr ''k'')
     (JStr []) (0, []) = Some ([], (10, []))
   \<and> map_option (\<lambda>r. (fst r, rendered (snd (snd r))))
     (chain_loop demo_lib (demo_services quiz_reply JNull 0) (JStr ''e'') (JStr ''k'') 0
        (JStr ''u9'') [] (10, []))
   = Some ([JObj [(''correct'', JBool False), (''url'', JStr [])]], [JStr ''u9''])"
proof -
  let ?sv = "demo_services quiz_reply JNull 0"
  let ?e = "JStr ''e''" and ?k = "JStr ''k''"
  let ?r9 = "JObj [(''correct'', JBool False), (''url'', JStr [])]"
  define tr9 where "tr9 = snd (snd (solve_single_quiz demo_lib ?sv ?e ?k (JStr ''u9'') (20, [])))"
  have q9: "solve_single_quiz demo_lib ?sv ?e ?k (JStr ''u9'') (20, []) = (Inr ?r9, (20, tr9))"
    unfolding tr9_def by (simp add: run_eval demo_eval)
  have rd: "rendered tr9 = [JStr ''u9'']"
    unfolding tr9_def by (simp add: run_eval demo_eval)
  have c0: "read_clock ?sv (0, []) = (0, (10, []))"
    and c1: "read_clock ?sv (10, []) = (10, (20, []))"
    by (simp_all add: run_eval demo_eval)
  have g: "(10::real) - 0 < max_time"
    by (simp add: max_time_def)
  have tu: "truthy (JStr ''u9'')"
    by simp
  have p9: "py_get ?r9 ''url'' = Inr (JStr []) \<or> py_get ?r9 ''url'' = Inr JNull"
    by simp
  note w = empty_url_stops_chain [where initial_url = "JStr []" and lb = demo_lib and sv = ?sv
      and email = ?e and secret = ?k and st = "(0, [])"]
  have "solve_quiz_chain demo_lib ?sv ?e ?k (JStr []) (0, []) = Some ([], snd (read_clock ?sv (0, [])))"
    using w by blast
  then have a: "solve_quiz_chain demo_lib ?sv ?e ?k (JStr []) (0, []) = Some ([], (10, []))"
    by (simp add: c0)
  have "chain_loop demo_lib ?sv ?e ?k 0 (JStr ''u9'') [] (10, []) = Some ([] @ [?r9], (20, tr9))"
    using empty_url_stops_chain [where lb = demo_lib and sv = ?sv and email = ?e and secret = ?k
        and current_url = "JStr ''u9''" and st = "(10, [])" and now = 10 and ?st1.0 = "(20, [])"
        and start_time = 0 and result = ?r9 and ?st2.0 = "(20, tr9)" and results = "[]"]
      tu c1 g q9 p9
    by blast
  then have b: "chain_loop demo_lib ?sv ?e ?k 0 (JStr ''u9'') [] (10, []) = Some ([?r9], (20, tr9))"
    by simp
  show ?thesis
    unfolding a b by (simp add: rd)
qed

section \<open>A quiz without a submit URL\<close>

text \<open>
  C1 (as the code has it). \<open>parse_quiz_with_llm\<close> returns what the language model's reply
  decodes to and checks no key: a reply that is a JSON object without \<open>submit_url\<close> is
  returned, not raised on. When the downloads and the answer then succeed, the quiz ends
  in the call of \<open>submit_answer\<close> with \<open>None\<close> as the submit URL.
\<close>

theorem missing_submit_url_reaches_submit:
  assumes "render_page sv url st = (Inr page_content, st1)"
    and "call_chat sv (parse_request page_content) st1 = (Inr c, st2)"
    and "json_loads lb c = Some (JObj kvs)" and "map_of kvs ''submit_url'' = None"
    and "download_step sv (JObj kvs) st2 = (Inr file_data, st3)"
    and "solve_with_llm lb sv (JObj kvs) file_data st3 = (Inr answer, st4)"
  shows "parse_quiz_with_llm lb sv page_content st1 = (Inr (JObj kvs), st2)
    \<and> solve_single_quiz lb sv email secret url st =
        submit_answer sv JNull email secret url answer st4
    \<and> posted (snd (snd (solve_single_quiz lb sv email secret url st))) =
        posted (snd st4) @
          [(JNull, JObj [(''email'', email), (''secret'', secret), (''url'', url),
                         (''answer'', answer)])]"
proof -
  have p: "parse_quiz_with_llm lb sv page_content st1 = (Inr (JObj kvs), st2)"
    using assms(2,3) by (simp add: parse_quiz_with_llm_def bind_def lift_def)
  have g: "py_get (JObj kvs) ''submit_url'' = Inr JNull"
    using assms(4) by simp
  have s: "solve_single_quiz lb sv email secret url st =
      submit_answer sv JNull email secret url answer st4"
    by (rule solve_single_quiz_submit [OF assms(1) p assms(5,6) g])
  show ?thesis
    using p s by (simp add: submit_answer_trace posted_append)
qed

theorem missing_submit_url_reaches_submit_witness:
  "fst (solve_single_quiz demo_lib (demo_services quiz_reply_no_submit JNull 0)
     (JStr ''e'') (JStr ''k'') (JStr ''u1'') (0, [])) = Inl (ServiceError ''invalid url'')
   \<and> posted (snd (snd (solve_single_quiz demo_lib (demo_services quiz_reply_no_submit JNull 0)
     (JStr ''e'') (JStr ''k'') (JStr ''u1'') (0, [])))) =
     [(JNull, JObj [(''email'', JStr ''e''), (''secret'', JStr ''k''), (''url'', JStr ''u1''),
                    (''answer'', JStr ''42'')])]"
proof -
  let ?sv = "demo_services quiz_reply_no_submit JNull 0"
  let ?e = "JStr ''e''" and ?k = "JStr ''k''"
  let ?pg = "\<lparr>html = [], inner_text = ''quiz''\<rparr>"
  let ?q = "JObj [(''question'', JStr ''q'')]"
  let ?t1 = "[Render (JStr ''u1'')]"
  let ?t2 = "[Render (JStr ''u1''), Chat (parse_request ?pg)]"
  define t4 where "t4 = snd (snd (solve_with_llm demo_lib ?sv ?q [] (0, ?t2)))"
  have r: "render_page ?sv (JStr ''u1'') (0, []) = (Inr ?pg, (0, ?t1))"
    by (simp add: run_eval demo_eval)
  have c: "call_chat ?sv (parse_request ?pg) (0, ?t1) = (Inr quiz_reply_no_submit, (0, ?t2))"
    by (simp add: run_eval demo_eval)
  have l: "json_loads demo_lib quiz_reply_no_submit = Some ?q"
    by (simp add: demo_eval)
  have m: "map_of [(''question'', JStr ''q'')] ''submit_url'' = None"
    by simp
  have d: "download_step ?sv ?q (0, ?t2) = (Inr [], (0, ?t2))"
    by (simp add: run_eval)
  have a: "solve_with_llm demo_lib ?sv ?q [] (0, ?t2) = (Inr (JStr ''42''), (0, t4))"
    unfolding t4_def by (simp add: run_eval demo_eval)
  have pt: "posted t4 = []"
    unfolding t4_def by (simp add: run_eval demo_eval)
  note w = missing_submit_url_reaches_submit [OF r c l m d a, of ?e ?k]
  have "solve_single_quiz demo_lib ?sv ?e ?k (JStr ''u1'') (0, []) =
      submit_answer ?sv JNull ?e ?k (JStr ''u1'') (JStr ''42'') (0, t4)"
    using w by blast
  then have "fst (solve_single_quiz demo_lib ?sv ?e ?k (JStr ''u1'') (0, [])) =
      Inl (ServiceError ''invalid url'')"
    by (simp add: submit_answer_def call_post_def demo_services_def)
  moreover have "posted (snd (snd (solve_single_quiz demo_lib ?sv ?e ?k (JStr ''u1'') (0, [])))) =
      posted (snd (0::nat, t4)) @
        [(JNull, JObj [(''email'', ?e), (''secret'', ?k), (''url'', JStr ''u1''),
                       (''answer'', JStr ''42'')])]"
    using w by blast
  ultimately show ?thesis
    by (simp add: pt)
qed

text \<open>
  C1 as stated fails: the reply decodes to a JSON object with a question and no
  \<open>submit_url\<close>; \<open>parse_quiz_with_llm\<close> returns it, and the quiz goes on to post the answer,
  with \<open>None\<close> as the URL.
\<close>

theorem parse_accepts_missing_submit_url_counterexample:
  "fst (parse_quiz_with_llm demo_lib (demo_services quiz_reply_no_submit JNull 0)
     \<lparr>html = [], inner_text = ''quiz''\<rparr> (0, [Render (JStr ''u1'')])) =
     Inr (JObj [(''question'', JStr ''q'')])
   \<and> posted (snd (snd (solve_single_quiz demo_lib (demo_services quiz_reply_no_submit JNull 0)
     (JStr ''e'') (JStr ''k'') (JStr ''u1'') (0, [])))) =
     [(JNull, JObj [(''email'', JStr ''e''), (''secret'', JStr ''k''), (''url'', JStr ''u1''),
                    (''answer'', JStr ''42'')])]"
  by (simp add: run_eval demo_eval)

end
